theory Spec2Isabelle
  imports Complex_Main "HOL-Library.Multiset" "HOL-Library.Sublist"
begin

section \<open>Data model (types.ts)\<close>

text \<open>
  The enum \<^verbatim>\<open>Domain\<close> has four members, each with a string value; the value is
  what \<^verbatim>\<open>startGame\<close> compares with the selected domain.
\<close>

datatype Domain = NPF | ACI | NXOS | UCS

fun domain_label :: "Domain \<Rightarrow> string" where
  "domain_label NPF = ''1.0 Network Programmability Foundation''"
| "domain_label ACI = ''2.0 Controller Based DC Networking (ACI)''"
| "domain_label NXOS = ''3.0 Device-centric Networking (NX-OS)''"
| "domain_label UCS = ''4.0 DC Compute (UCS/Intersight)''"

text \<open>
  \<^verbatim>\<open>interface Question { id; domain; q; a }\<close>. The fields are written
  \<open>q_id\<close>, \<open>q_domain\<close>, \<open>q_q\<close>, \<open>q_a\<close>, so that \<^verbatim>\<open>q.a\<close> reads \<open>q_a q\<close>.
\<close>

record Question =
  q_id :: string
  q_domain :: Domain
  q_q :: string
  q_a :: string

text \<open>
  \<^verbatim>\<open>interface Stats\<close>. The counters are JavaScript numbers that start at 0 and only
  ever grow by 1 (exact up to \<open>2 ^ 53\<close>); they are modelled as natural numbers.
\<close>

record Stats =
  correct :: nat
  wrong :: nat
  requeued :: nat
  totalAnswered :: nat

datatype GameState = SETUP | PLAYING | SUMMARY

section \<open>The random source\<close>

text \<open>
  \<^verbatim>\<open>Math.random()\<close> is ambient state. It is made explicit as a sequence of draws,
  of which every call consumes the first. \<^verbatim>\<open>Math.floor(Math.random() * n)\<close> is, for
  \<open>n \<ge> 1\<close>, an index in \<open>{0..<n}\<close>, and every such index can come out: the draw is
  a natural number reduced modulo \<open>n\<close>.
\<close>

type_synonym rng = "nat \<Rightarrow> nat"

definition random_below :: "nat \<Rightarrow> rng \<Rightarrow> nat \<times> rng" where
  "random_below n g = (g 0 mod n, \<lambda>k. g (Suc k))"

section \<open>shuffle (App.tsx, lines 7 to 14)\<close>

text \<open>
  The loop \<^verbatim>\<open>for (let i = newArr.length - 1; i > 0; i--)\<close>: the first argument is
  \<open>i\<close>; the iteration for \<open>i = Suc k\<close> draws \<open>j\<close> below \<open>i + 1\<close> and exchanges the
  elements at \<open>i\<close> and \<open>j\<close>, both read before either is written.
\<close>

fun shuffle_loop :: "nat \<Rightarrow> 'a list \<Rightarrow> rng \<Rightarrow> 'a list \<times> rng" where
  "shuffle_loop 0 newArr g = (newArr, g)"
| "shuffle_loop (Suc k) newArr g =
     (let (j, g') = random_below (Suc k + 1) g
      in shuffle_loop k (newArr[Suc k := newArr ! j, j := newArr ! Suc k]) g')"

definition shuffle :: "'a list \<Rightarrow> rng \<Rightarrow> 'a list \<times> rng" where
  "shuffle array g = (let newArr = array in shuffle_loop (length newArr - 1) newArr g)"

text \<open>
  The same function over an explicit store of arrays, to speak about the caller's array:
  an address is an index into the store, \<^verbatim>\<open>[...array]\<close> allocates a new array with
  the elements of the old one, and the loop writes to the store at the new address only.
\<close>

type_synonym 'a store = "'a list list"

definition copy_array :: "nat \<Rightarrow> 'a store \<Rightarrow> nat \<times> 'a store" where
  "copy_array p h = (length h, h @ [h ! p])"

fun shuffle_loop_store :: "nat \<Rightarrow> nat \<Rightarrow> 'a store \<Rightarrow> rng \<Rightarrow> 'a store \<times> rng" where
  "shuffle_loop_store 0 newArr h g = (h, g)"
| "shuffle_loop_store (Suc k) newArr h g =
     (let (j, g') = random_below (Suc k + 1) g;
          vi = h ! newArr ! Suc k;
          vj = h ! newArr ! j;
          h1 = h[newArr := (h ! newArr)[Suc k := vj]];
          h2 = h1[newArr := (h1 ! newArr)[j := vi]]
      in shuffle_loop_store k newArr h2 g')"

definition shuffle_store :: "nat \<Rightarrow> 'a store \<Rightarrow> rng \<Rightarrow> nat \<times> 'a store \<times> rng" where
  "shuffle_store array h g =
     (let (newArr, h1) = copy_array array h;
          (h2, g') = shuffle_loop_store (length (h1 ! newArr) - 1) newArr h1 g
      in (newArr, h2, g'))"

section \<open>generateOptions (App.tsx, lines 44 to 63)\<close>

text \<open>
  \<^verbatim>\<open>Array.from(new Set(xs))\<close>: a Set keeps its elements in insertion order and
  ignores an element it already has.
\<close>

definition array_from_set :: "'a list \<Rightarrow> 'a list" where
  "array_from_set xs = foldl (\<lambda>acc x. if x \<in> set acc then acc else acc @ [x]) [] xs"

text \<open>Lines 47 to 53: the pool the distractors are drawn from.\<close>

definition distractor_pool :: "Question \<Rightarrow> Question list \<Rightarrow> Question list" where
  "distractor_pool currentQ allQuestions =
     (let pool = filter (\<lambda>x. q_id x \<noteq> q_id currentQ) allQuestions;
          sameDomainPool = filter (\<lambda>x. q_domain x = q_domain currentQ) pool
      in if length sameDomainPool \<ge> 3 then sameDomainPool else pool)"

text \<open>Line 56.\<close>

definition uniqueAnswers :: "Question \<Rightarrow> Question list \<Rightarrow> string list" where
  "uniqueAnswers currentQ allQuestions =
     array_from_set (map q_a (distractor_pool currentQ allQuestions))"

text \<open>Lines 59 to 62.\<close>

definition generateOptions :: "Question \<Rightarrow> Question list \<Rightarrow> rng \<Rightarrow> string list \<times> rng" where
  "generateOptions currentQ allQuestions g =
     (let (shuffled, g1) = shuffle (uniqueAnswers currentQ allQuestions) g;
          distractors = take 3 shuffled
      in shuffle (distractors @ [q_a currentQ]) g1)"

section \<open>The component state and its handlers (App.tsx, lines 22 to 149)\<close>

record App =
  gameState :: GameState
  selectedDomain :: string
  deck :: "Question list"
  currentIndex :: nat
  currentOptions :: "string list"
  selectedOption :: "string option"
  isAnswered :: bool
  timer :: int
  isActive :: bool
  stats :: Stats

definition TIMER_START :: int where
  "TIMER_START = 20 * 60"

text \<open>
  \<^verbatim>\<open>startGame\<close>. The question bank \<^verbatim>\<open>questions\<close> is imported from a module
  that is not part of the sources at hand; it is a parameter. Lines 67 to 70 compute
  \<^verbatim>\<open>filtered\<close> from the selected domain.
\<close>

definition filtered :: "string \<Rightarrow> Question list \<Rightarrow> Question list" where
  "filtered selected questions =
     (if selected \<noteq> ''ALL''
      then filter (\<lambda>x. domain_label (q_domain x) = selected) questions
      else questions)"

definition startGame :: "Question list \<Rightarrow> rng \<Rightarrow> App \<Rightarrow> App \<times> rng" where
  "startGame questions g s =
     (let (shuffledDeck, g1) = shuffle (filtered (selectedDomain s) questions) g;
          s1 = s\<lparr>deck := shuffledDeck, currentIndex := 0, gameState := PLAYING,
                 timer := TIMER_START,
                 stats := \<lparr>correct = 0, wrong = 0, requeued = 0, totalAnswered = 0\<rparr>,
                 isActive := True\<rparr>
      in if length shuffledDeck > 0
         then (let (opts, g2) = generateOptions (shuffledDeck ! 0) questions g1
               in (s1\<lparr>currentOptions := opts, isAnswered := False, selectedOption := None\<rparr>, g2))
         else (s1, g1))"

definition handleExit :: "App \<Rightarrow> App" where
  "handleExit s = s\<lparr>isActive := False, gameState := SETUP\<rparr>"

text \<open>
  \<^verbatim>\<open>handleOptionClick\<close>. \<^verbatim>\<open>deck[currentIndex]\<close> is \<^verbatim>\<open>undefined\<close> when the
  index is not below the length, and reading \<^verbatim>\<open>.a\<close> of it throws a TypeError, before
  any state is set.
\<close>

datatype error = TypeError

definition handleOptionClick :: "string \<Rightarrow> App \<Rightarrow> error + App" where
  "handleOptionClick opt s =
     (if isAnswered s then Inr s
      else if currentIndex s < length (deck s)
      then (let currentCard = deck s ! currentIndex s;
                isCorrect = (opt = q_a currentCard);
                s1 = s\<lparr>selectedOption := Some opt, isAnswered := True,
                       stats := (stats s)\<lparr>
                         correct := correct (stats s) + (if isCorrect then 1 else 0),
                         wrong := wrong (stats s) + (if \<not> isCorrect then 1 else 0),
                         requeued := requeued (stats s) + (if \<not> isCorrect then 1 else 0),
                         totalAnswered := totalAnswered (stats s) + 1\<rparr>\<rparr>
            in Inr (if \<not> isCorrect then s1\<lparr>deck := deck s @ [currentCard]\<rparr> else s1))
      else Inl TypeError)"

text \<open>
  \<^verbatim>\<open>handleNext\<close>. The comparison \<^verbatim>\<open>currentIndex < deck.length - 1\<close> is over the
  integers (\<open>-1\<close> for an empty deck).
\<close>

definition handleNext :: "Question list \<Rightarrow> rng \<Rightarrow> App \<Rightarrow> App \<times> rng" where
  "handleNext questions g s =
     (if int (currentIndex s) < int (length (deck s)) - 1
      then (let nextIndex = currentIndex s + 1;
                (opts, g1) = generateOptions (deck s ! nextIndex) questions g
            in (s\<lparr>currentIndex := nextIndex, currentOptions := opts,
                   isAnswered := False, selectedOption := None\<rparr>, g1))
      else (s\<lparr>isActive := False, gameState := SUMMARY\<rparr>, g))"

text \<open>The initial values of the \<^verbatim>\<open>useState\<close> hooks (lines 23 to 41).\<close>

definition initial_App :: App where
  "initial_App =
     \<lparr>gameState = SETUP, selectedDomain = ''ALL'', deck = [], currentIndex = 0,
      currentOptions = [], selectedOption = None, isAnswered = False,
      timer = TIMER_START, isActive = False,
      stats = \<lparr>correct = 0, wrong = 0, requeued = 0, totalAnswered = 0\<rparr>\<rparr>"

text \<open>
  The timer (lines 93 to 106). The interval exists while \<^verbatim>\<open>isActive && timer > 0\<close>,
  and its callback takes one second off; the effect's other branch ends the session when
  the timer is at zero while playing. Time is abstracted to the \<open>Tick\<close> event.
\<close>

definition tick :: "App \<Rightarrow> App" where
  "tick s = (if isActive s \<and> timer s > 0 then s\<lparr>timer := timer s - 1\<rparr> else s)"

definition timer_effect :: "App \<Rightarrow> App" where
  "timer_effect s =
     (if isActive s \<and> timer s > 0 then s
      else if timer s = 0 \<and> gameState s = PLAYING
      then s\<lparr>isActive := False, gameState := SUMMARY\<rparr>
      else s)"

text \<open>
  The events the component receives: the domain selector, the five buttons and the
  timer. An event runs its handler, then the effect. A handler that throws leaves the
  state as it was.
\<close>

datatype event =
  SelectDomain string | StartGame | OptionClick string | Next | Exit | Tick | NewQuiz

fun dispatch :: "Question list \<Rightarrow> event \<Rightarrow> App \<times> rng \<Rightarrow> App \<times> rng" where
  "dispatch questions (SelectDomain d) (s, g) = (s\<lparr>selectedDomain := d\<rparr>, g)"
| "dispatch questions StartGame (s, g) = startGame questions g s"
| "dispatch questions (OptionClick opt) (s, g) =
     (case handleOptionClick opt s of Inl e \<Rightarrow> (s, g) | Inr s' \<Rightarrow> (s', g))"
| "dispatch questions Next (s, g) = handleNext questions g s"
| "dispatch questions Exit (s, g) = (handleExit s, g)"
| "dispatch questions Tick (s, g) = (tick s, g)"
| "dispatch questions NewQuiz (s, g) = (s\<lparr>gameState := SETUP\<rparr>, g)"

definition step :: "Question list \<Rightarrow> event \<Rightarrow> App \<times> rng \<Rightarrow> App \<times> rng" where
  "step questions e sg = (let (s, g) = dispatch questions e sg in (timer_effect s, g))"

fun run :: "Question list \<Rightarrow> event list \<Rightarrow> App \<times> rng \<Rightarrow> App \<times> rng" where
  "run questions [] sg = sg"
| "run questions (e # es) sg = run questions es (step questions e sg)"





section \<open>accuracy (App.tsx, lines 147 to 149)\<close>

text \<open>
  A JavaScript number is an IEEE 754 binary64 value, and \<^verbatim>\<open>/\<close> and \<^verbatim>\<open>*\<close> return
  the exact result rounded to the nearest such value, ties to the even significand. The
  values are modelled as the rationals they denote, and \<open>to_double\<close> is that rounding:
  a significand of 53 bits at the exponent of the argument. Subnormal values and overflow
  are left out: the quotient of two counters and its product with 100 are far from both.
\<close>

function bit_length :: "int \<Rightarrow> int" where
  "bit_length n = (if n \<le> 0 then 0 else 1 + bit_length (n div 2))"
  by pat_completeness auto
termination
  by (relation "measure nat") auto

declare bit_length.simps [simp del]

text \<open>The exponent \<open>e\<close> with \<open>2 powi e \<le> x < 2 powi (e + 1)\<close>, for \<open>x > 0\<close>.\<close>

definition binary_exponent :: "rat \<Rightarrow> int" where
  "binary_exponent x =
     (let (p, q) = quotient_of x;
          e0 = bit_length p - bit_length q
      in if 2 powi e0 \<le> x then e0 else e0 - 1)"

definition round_half_even :: "rat \<Rightarrow> int" where
  "round_half_even m =
     (let f = \<lfloor>m\<rfloor>; r = m - of_int f
      in if r < 1 / 2 then f else if r > 1 / 2 then f + 1 else if even f then f else f + 1)"

definition to_double :: "rat \<Rightarrow> rat" where
  "to_double x =
     (if x = 0 then 0
      else (let u = 2 powi (binary_exponent \<bar>x\<bar> - 52)
            in of_int (round_half_even (x / u)) * u))"

text \<open>
  \<^verbatim>\<open>Math.round\<close>: the nearest integer, and of two equally near the greater one.
\<close>

definition Math_round :: "rat \<Rightarrow> int" where
  "Math_round y = \<lfloor>y + 1 / 2\<rfloor>"

definition accuracy :: "Stats \<Rightarrow> int" where
  "accuracy st =
     (if totalAnswered st > 0
      then Math_round
             (to_double (to_double (of_nat (correct st) / of_nat (totalAnswered st)) * 100))
      else 0)"

section \<open>The specification's words, for comparison\<close>

text \<open>
  The invariant of the statistics: every wrong answer is one re-queue, and every answer
  is either correct or wrong.
\<close>

definition stats_invariant :: "Stats \<Rightarrow> bool" where
  "stats_invariant st = (requeued st = wrong st \<and> totalAnswered st = correct st + wrong st)"

text \<open>
  The candidates are the universe minus the target, by id; the same-domain candidates
  are those that share the target's domain.
\<close>

definition candidates :: "Question \<Rightarrow> Question list \<Rightarrow> Question list" where
  "candidates target universe = [x \<leftarrow> universe. q_id x \<noteq> q_id target]"

definition same_domain_candidates :: "Question \<Rightarrow> Question list \<Rightarrow> Question list" where
  "same_domain_candidates target universe =
     [x \<leftarrow> universe. q_id x \<noteq> q_id target \<and> q_domain x = q_domain target]"

text \<open>
  The accuracy in exact arithmetic: the percentage of correct answers, rounded to the
  nearest integer, and 0 when nothing has been answered.
\<close>

definition exact_accuracy :: "Stats \<Rightarrow> int" where
  "exact_accuracy st =
     (if totalAnswered st > 0
      then \<lfloor>(of_nat (correct st) / of_nat (totalAnswered st) * 100 :: rat) + 1 / 2\<rfloor>
      else 0)"

section \<open>Example data\<close>

definition mk_question :: "string \<Rightarrow> Domain \<Rightarrow> string \<Rightarrow> Question" where
  "mk_question i d ans = \<lparr>q_id = i, q_domain = d, q_q = ''?'', q_a = ans\<rparr>"

text \<open>Five questions with five answers; four of one domain.\<close>

definition bank5 :: "Question list" where
  "bank5 = [mk_question ''1'' NPF ''A'', mk_question ''2'' NPF ''B'',
            mk_question ''3'' NPF ''C'', mk_question ''4'' NPF ''D'',
            mk_question ''5'' ACI ''E'']"

text \<open>Four questions with unique ids; two of them have the same answer.\<close>

definition bank4 :: "Question list" where
  "bank4 = [mk_question ''1'' NPF ''A'', mk_question ''2'' NPF ''B'',
            mk_question ''3'' NPF ''B'', mk_question ''4'' NPF ''C'']"

text \<open>The random source whose every draw is 0.\<close>

definition zeros :: rng where
  "zeros = (\<lambda>k. 0)"

text \<open>A session on the five questions, just started; and the same with no question of the selected domain.\<close>

definition playing5 :: App where
  "playing5 = fst (startGame bank5 zeros initial_App)"

definition select_UCS :: App where
  "select_UCS = initial_App\<lparr>selectedDomain := domain_label UCS\<rparr>"

text \<open>The first card of that session, answered wrongly.\<close>

definition answered5 :: App where
  "answered5 = (case handleOptionClick ''X'' playing5 of Inl e \<Rightarrow> playing5 | Inr s' \<Rightarrow> s')"

text \<open>Twenty-three correct answers of forty.\<close>

definition tally_23_of_40 :: Stats where
  "tally_23_of_40 = \<lparr>correct = 23, wrong = 17, requeued = 17, totalAnswered = 40\<rparr>"

section \<open>shuffle returns a permutation\<close>

lemma shuffle_loop_mset:
  "k < length xs \<or> k = 0 \<Longrightarrow> mset (fst (shuffle_loop k xs g)) = mset xs"
proof (induction k arbitrary: xs g)
  case 0
  show ?case by simp
next
  case (Suc k)
  obtain j g' where d: "random_below (Suc k + 1) g = (j, g')"
    by (cases "random_below (Suc k + 1) g")
  from d have "j < Suc (Suc k)"
    by (auto simp: random_below_def)
  with Suc.prems have jl: "j < length xs" and kl: "Suc k < length xs"
    by auto
  let ?ys = "xs[Suc k := xs ! j, j := xs ! Suc k]"
  have "mset ?ys = mset xs"
    using jl kl by (simp add: mset_swap)
  moreover have "mset (fst (shuffle_loop k ?ys g')) = mset ?ys"
    using kl by (intro Suc.IH) simp
  ultimately show ?case
    using d by simp
qed

lemma shuffle_mset: "mset (fst (shuffle xs g)) = mset xs"
proof (cases xs)
  case Nil
  then show ?thesis by (simp add: shuffle_def)
next
  case (Cons y ys)
  then show ?thesis
    by (simp add: shuffle_def shuffle_loop_mset)
qed

lemma shuffle_loop_store_refines:
  "newArr < length h \<Longrightarrow>
   shuffle_loop_store k newArr h g =
     (h[newArr := fst (shuffle_loop k (h ! newArr) g)], snd (shuffle_loop k (h ! newArr) g))"
proof (induction k arbitrary: h g)
  case 0
  then show ?case by simp
next
  case (Suc k)
  obtain j g' where d: "random_below (Suc k + 1) g = (j, g')"
    by (cases "random_below (Suc k + 1) g")
  let ?xs = "h ! newArr"
  let ?ys = "?xs[Suc k := ?xs ! j, j := ?xs ! Suc k]"
  have step: "shuffle_loop_store (Suc k) newArr h g = shuffle_loop_store k newArr (h[newArr := ?ys]) g'"
    using d Suc.prems by (simp add: Let_def)
  have "shuffle_loop_store k newArr (h[newArr := ?ys]) g' =
        ((h[newArr := ?ys])[newArr := fst (shuffle_loop k ((h[newArr := ?ys]) ! newArr) g')],
         snd (shuffle_loop k ((h[newArr := ?ys]) ! newArr) g'))"
    using Suc.prems by (intro Suc.IH) simp
  then show ?case
    using step d Suc.prems by simp
qed

lemma shuffle_length: "length (fst (shuffle xs g)) = length xs"
  using shuffle_mset [of xs g] by (metis size_mset)

text \<open>
  Claim C6. For every array, of any length, \<^verbatim>\<open>shuffle\<close> returns a new array (an
  address the store did not have) that holds a permutation of the argument: the same
  multiset of elements, the same length. Every array the store had, the argument among
  them, is as it was. The new array is what the function over values computes.
\<close>

theorem shuffle_permutation:
  assumes "array < length h" and "shuffle_store array h g = (newArr, h', g')"
  shows "length h \<le> newArr \<and> length h' = Suc (length h) \<and> newArr < length h' \<and> (\<forall>p < length h. h' ! p = h ! p) \<and>
         h' ! newArr = fst (shuffle (h ! array) g) \<and> g' = snd (shuffle (h ! array) g) \<and>
         mset (h' ! newArr) = mset (h ! array) \<and>
         length (h' ! newArr) = length (h ! array)"
proof -
  let ?h1 = "h @ [h ! array]"
  let ?n = "length h"
  have n: "?n < length ?h1" by simp
  have at: "?h1 ! ?n = h ! array" by simp
  from assms(2) have res: "newArr = ?n"
    "h' = ?h1[?n := fst (shuffle (h ! array) g)]" "g' = snd (shuffle (h ! array) g)"
    unfolding shuffle_store_def copy_array_def
    by (auto simp add: shuffle_loop_store_refines [OF n] shuffle_def Let_def at simp del: nth_append_length)
  show ?thesis
    using assms(1) unfolding res
    by (simp add: shuffle_mset shuffle_length nth_append)
qed

theorem shuffle_permutation_witness:
  "(0::nat) < length [[1::nat, 2, 3]] \<and>
   fst (shuffle_store 0 [[1::nat, 2, 3]] zeros) = 1 \<and>
   fst (snd (shuffle_store 0 [[1::nat, 2, 3]] zeros)) = [[1, 2, 3], [2, 3, 1]] \<and>
   mset (fst (snd (shuffle_store 0 [[1::nat, 2, 3]] zeros)) ! fst (shuffle_store 0 [[1::nat, 2, 3]] zeros)) =
     mset ([[1::nat, 2, 3]] ! 0)"
proof -
  have valid: "(0::nat) < length [[1::nat, 2, 3]]"
    by simp
  have result: "fst (shuffle_store 0 [[1::nat, 2, 3]] zeros) = 1"
    "fst (snd (shuffle_store 0 [[1::nat, 2, 3]] zeros)) = [[1, 2, 3], [2, 3, 1]]"
    by code_simp+
  have "shuffle_store 0 [[1::nat, 2, 3]] zeros =
     (fst (shuffle_store 0 [[1::nat, 2, 3]] zeros), fst (snd (shuffle_store 0 [[1::nat, 2, 3]] zeros)),
      snd (snd (shuffle_store 0 [[1::nat, 2, 3]] zeros)))"
    by simp
  from shuffle_permutation [OF valid this] show ?thesis
    using result valid by blast
qed

section \<open>generateOptions\<close>

lemma array_from_set_aux:
  "distinct acc \<Longrightarrow>
   distinct (foldl (\<lambda>acc x. if x \<in> set acc then acc else acc @ [x]) acc xs) \<and>
   set (foldl (\<lambda>acc x. if x \<in> set acc then acc else acc @ [x]) acc xs) = set acc \<union> set xs"
  by (induction xs arbitrary: acc) auto

lemma array_from_set_distinct: "distinct (array_from_set xs)"
  using array_from_set_aux [of "[]" xs] by (simp add: array_from_set_def)

lemma array_from_set_set: "set (array_from_set xs) = set xs"
  using array_from_set_aux [of "[]" xs] by (simp add: array_from_set_def)

lemma uniqueAnswers_distinct: "distinct (uniqueAnswers t U)"
  by (simp add: uniqueAnswers_def array_from_set_distinct)

lemma uniqueAnswers_set: "set (uniqueAnswers t U) = q_a ` set (distractor_pool t U)"
  by (simp add: uniqueAnswers_def array_from_set_set)

lemma uniqueAnswers_length: "length (uniqueAnswers t U) = card (q_a ` set (distractor_pool t U))"
  using uniqueAnswers_distinct [of t U] uniqueAnswers_set [of t U]
  by (metis distinct_card)

lemma shuffle_set: "set (fst (shuffle xs g)) = set xs"
  using shuffle_mset [of xs g] by (metis set_mset_mset)

lemma shuffle_distinct: "distinct (fst (shuffle xs g)) = distinct xs"
  using shuffle_mset [of xs g] by (metis mset_eq_imp_distinct_iff)

lemma generateOptions_mset:
  "mset (fst (generateOptions t U g)) =
     mset (take 3 (fst (shuffle (uniqueAnswers t U) g))) + {#q_a t#}"
  by (simp add: generateOptions_def Let_def split_beta shuffle_mset)

lemma generateOptions_length:
  "length (fst (generateOptions t U g)) = min 3 (card (q_a ` set (distractor_pool t U))) + 1"
proof -
  have "length (fst (generateOptions t U g)) = size (mset (fst (generateOptions t U g)))"
    by simp
  also have "\<dots> = length (take 3 (fst (shuffle (uniqueAnswers t U) g))) + 1"
    unfolding generateOptions_mset by simp
  also have "\<dots> = min 3 (card (q_a ` set (distractor_pool t U))) + 1"
    by (simp add: shuffle_length uniqueAnswers_length min.commute)
  finally show ?thesis .
qed

lemma generateOptions_has_answer: "q_a t \<in> set (fst (generateOptions t U g))"
proof -
  have "q_a t \<in># mset (fst (generateOptions t U g))"
    unfolding generateOptions_mset by simp
  then show ?thesis by simp
qed

lemma distractors_distinct: "distinct (take 3 (fst (shuffle (uniqueAnswers t U) g)))"
  by (simp add: shuffle_distinct uniqueAnswers_distinct)

lemma distractors_subset:
  "set (take 3 (fst (shuffle (uniqueAnswers t U) g))) \<subseteq> q_a ` set (distractor_pool t U)"
  using set_take_subset [of 3 "fst (shuffle (uniqueAnswers t U) g)"]
  by (simp add: shuffle_set uniqueAnswers_set)

lemma length_filter_eq_count: "length (filter (\<lambda>x. x = y) xs) = count (mset xs) y"
  by (induction xs) auto

text \<open>
  Claim C10. For every target and universe, \<^verbatim>\<open>generateOptions\<close> returns
  \<open>min 3 d + 1\<close> options, where \<open>d\<close> is the number of distinct answer texts in the
  selected pool, and the target's answer is among them: with fewer than three distractors
  the list is short, neither padded nor refused.
\<close>

theorem generateOptions_short_list:
  "length (fst (generateOptions t U g)) = min 3 (card (q_a ` set (distractor_pool t U))) + 1 \<and>
   q_a t \<in> set (fst (generateOptions t U g))"
  by (simp only: generateOptions_length generateOptions_has_answer simp_thms)

theorem generateOptions_short_list_witness:
  "length (fst (generateOptions (mk_question ''1'' NPF ''A'') bank4 zeros)) = 3 \<and>
   card (q_a ` set (distractor_pool (mk_question ''1'' NPF ''A'') bank4)) = 2 \<and>
   q_a (mk_question ''1'' NPF ''A'') \<in> set (fst (generateOptions (mk_question ''1'' NPF ''A'') bank4 zeros))"
proof -
  have two: "card (q_a ` set (distractor_pool (mk_question ''1'' NPF ''A'') bank4)) = 2"
    by (simp add: distractor_pool_def bank4_def mk_question_def)
  from generateOptions_short_list [of "mk_question ''1'' NPF ''A''" bank4 zeros] two
  show ?thesis by simp
qed

text \<open>
  Claim C1, as amended. When the selected pool has at least three distinct answer texts,
  \<^verbatim>\<open>generateOptions\<close> returns exactly four options, and the target's answer is one
  of them; when moreover no question of the pool has the target's answer text, the four
  are pairwise distinct and exactly one is the target's answer.
\<close>

theorem generateOptions_four:
  assumes "3 \<le> card (q_a ` set (distractor_pool t U))"
  shows "length (fst (generateOptions t U g)) = 4 \<and>
         q_a t \<in> set (fst (generateOptions t U g)) \<and>
         (q_a t \<notin> q_a ` set (distractor_pool t U) \<longrightarrow>
            distinct (fst (generateOptions t U g)) \<and>
            length (filter (\<lambda>opt. opt = q_a t) (fst (generateOptions t U g))) = 1)"
proof -
  let ?opts = "fst (generateOptions t U g)"
  let ?ds = "take 3 (fst (shuffle (uniqueAnswers t U) g))"
  have len: "length ?opts = 4"
    using assms by (simp add: generateOptions_length)
  have perm: "mset ?opts = mset (?ds @ [q_a t])"
    by (simp add: generateOptions_mset)
  have dist: "distinct ?opts" if "q_a t \<notin> q_a ` set (distractor_pool t U)"
  proof -
    from that distractors_subset [of t U g] have "q_a t \<notin> set ?ds" by blast
    then have "distinct (?ds @ [q_a t])"
      using distractors_distinct [of t U g] by simp
    with perm show ?thesis
      by (metis mset_eq_imp_distinct_iff)
  qed
  have one: "length (filter (\<lambda>opt. opt = q_a t) ?opts) = 1" if "distinct ?opts"
  proof -
    have "length (filter (\<lambda>opt. opt = q_a t) ?opts) = count (mset ?opts) (q_a t)"
      by (rule length_filter_eq_count)
    also have "\<dots> = 1"
      using that generateOptions_has_answer [of t U g]
      by (metis distinct_count_atmost_1 set_mset_mset)
    finally show ?thesis .
  qed
  show ?thesis
    using len generateOptions_has_answer [of t U g] dist one by blast
qed

theorem generateOptions_four_witness:
  "3 \<le> card (q_a ` set (distractor_pool (mk_question ''1'' NPF ''A'') bank5)) \<and>
   q_a (mk_question ''1'' NPF ''A'') \<notin> q_a ` set (distractor_pool (mk_question ''1'' NPF ''A'') bank5) \<and>
   length (fst (generateOptions (mk_question ''1'' NPF ''A'') bank5 zeros)) = 4 \<and>
   distinct (fst (generateOptions (mk_question ''1'' NPF ''A'') bank5 zeros)) \<and>
   length (filter (\<lambda>opt. opt = q_a (mk_question ''1'' NPF ''A''))
     (fst (generateOptions (mk_question ''1'' NPF ''A'') bank5 zeros))) = 1"
proof -
  have three: "3 \<le> card (q_a ` set (distractor_pool (mk_question ''1'' NPF ''A'') bank5))"
    by (simp add: distractor_pool_def bank5_def mk_question_def)
  have fresh: "q_a (mk_question ''1'' NPF ''A'') \<notin> q_a ` set (distractor_pool (mk_question ''1'' NPF ''A'') bank5)"
    by (simp add: distractor_pool_def bank5_def mk_question_def)
  from generateOptions_four [OF three, of zeros] fresh three show ?thesis
    by blast
qed

text \<open>
  Claim C1, as stated, fails on four questions with unique ids: two of the three
  candidates share an answer text, and three options come back.
\<close>

theorem generateOptions_four_counterexample:
  "mk_question ''1'' NPF ''A'' \<in> set bank4 \<and> 4 \<le> length bank4 \<and> distinct (map q_id bank4) \<and>
   fst (generateOptions (mk_question ''1'' NPF ''A'') bank4 zeros) = [''B'', ''A'', ''C''] \<and>
   length (fst (generateOptions (mk_question ''1'' NPF ''A'') bank4 zeros)) = 3"
  by code_simp

section \<open>The selected pool (claim C8)\<close>

lemma distractor_pool_same:
  "3 \<le> length (same_domain_candidates t U) \<Longrightarrow> distractor_pool t U = same_domain_candidates t U"
  by (simp add: distractor_pool_def same_domain_candidates_def Let_def conj_commute)

lemma distractor_pool_all:
  "length (same_domain_candidates t U) < 3 \<Longrightarrow> distractor_pool t U = candidates t U"
  by (simp add: distractor_pool_def same_domain_candidates_def candidates_def Let_def conj_commute)

text \<open>
  Claim C8. When at least three candidates (the universe minus the target, by id) share
  the target's domain, the pool is exactly the same-domain candidates; otherwise it is all
  the candidates. The answer texts of the pool are deduplicated (no text twice, none lost)
  before the distractors are chosen: the options are the first three of the shuffled
  distinct texts and the target's answer, shuffled.
\<close>

theorem generateOptions_pool:
  "(3 \<le> length (same_domain_candidates t U) \<longrightarrow>
      distractor_pool t U = same_domain_candidates t U) \<and>
   (length (same_domain_candidates t U) < 3 \<longrightarrow> distractor_pool t U = candidates t U) \<and>
   distinct (uniqueAnswers t U) \<and>
   set (uniqueAnswers t U) = q_a ` set (distractor_pool t U) \<and>
   mset (fst (shuffle (uniqueAnswers t U) g)) = mset (uniqueAnswers t U) \<and>
   mset (fst (generateOptions t U g)) =
     mset (take 3 (fst (shuffle (uniqueAnswers t U) g))) + {#q_a t#}"
  using distractor_pool_same [of t U] distractor_pool_all [of t U]
  by (simp add: uniqueAnswers_distinct uniqueAnswers_set shuffle_mset generateOptions_mset)

theorem generateOptions_pool_witness:
  "3 \<le> length (same_domain_candidates (mk_question ''1'' NPF ''A'') bank5) \<and>
   distractor_pool (mk_question ''1'' NPF ''A'') bank5 =
     same_domain_candidates (mk_question ''1'' NPF ''A'') bank5 \<and>
   length (same_domain_candidates (mk_question ''5'' ACI ''E'') bank5) < 3 \<and>
   distractor_pool (mk_question ''5'' ACI ''E'') bank5 = candidates (mk_question ''5'' ACI ''E'') bank5 \<and>
   uniqueAnswers (mk_question ''1'' NPF ''A'') bank5 = [''B'', ''C'', ''D'']"
proof -
  have a: "3 \<le> length (same_domain_candidates (mk_question ''1'' NPF ''A'') bank5)"
    by code_simp
  have b: "length (same_domain_candidates (mk_question ''5'' ACI ''E'') bank5) < 3"
    by code_simp
  have c: "uniqueAnswers (mk_question ''1'' NPF ''A'') bank5 = [''B'', ''C'', ''D'']"
    by code_simp
  from generateOptions_pool [of "mk_question ''1'' NPF ''A''" bank5 zeros]
    generateOptions_pool [of "mk_question ''5'' ACI ''E''" bank5 zeros] a b c
  show ?thesis by blast
qed

section \<open>Answering (claims C5, C3)\<close>

text \<open>
  Claim C5. In every state with \<^verbatim>\<open>isAnswered\<close>, \<^verbatim>\<open>handleOptionClick\<close> returns
  the state as it is, for every option: statistics, deck, selected option and the flag
  are unchanged. A first answer sets the flag, so a second answer to the same card, before
  \<^verbatim>\<open>handleNext\<close>, does nothing.
\<close>

theorem handleOptionClick_answered:
  "(isAnswered s \<longrightarrow> handleOptionClick opt s = Inr s) \<and>
   (\<not> isAnswered s \<and> handleOptionClick opt s = Inr s' \<longrightarrow>
      isAnswered s' \<and> handleOptionClick opt' s' = Inr s')"
  by (auto simp: handleOptionClick_def Let_def split: if_splits)

theorem handleOptionClick_answered_witness:
  "\<not> isAnswered playing5 \<and> handleOptionClick ''X'' playing5 = Inr answered5 \<and>
   isAnswered answered5 \<and> handleOptionClick ''B'' answered5 = Inr answered5 \<and>
   stats answered5 = \<lparr>correct = 0, wrong = 1, requeued = 1, totalAnswered = 1\<rparr>"
proof -
  have fresh: "\<not> isAnswered playing5"
    by code_simp
  have first: "handleOptionClick ''X'' playing5 = Inr answered5"
    by code_simp
  have tally: "stats answered5 = \<lparr>correct = 0, wrong = 1, requeued = 1, totalAnswered = 1\<rparr>"
    by code_simp
  from handleOptionClick_answered [of playing5 "''X''" answered5 "''B''"]
    handleOptionClick_answered [of answered5 "''B''"] fresh first tally
  show ?thesis by blast
qed

lemma handleOptionClick_stats:
  "handleOptionClick opt s = Inr s' \<Longrightarrow> stats_invariant (stats s) \<Longrightarrow> stats_invariant (stats s')"
  by (auto simp: handleOptionClick_def Let_def stats_invariant_def split: if_splits)

lemma timer_effect_stats [simp]: "stats (timer_effect s) = stats s"
  by (simp add: timer_effect_def)

lemma handleNext_stats [simp]: "stats (fst (handleNext questions g s)) = stats s"
  by (simp add: handleNext_def Let_def split_beta)

lemma startGame_stats [simp]:
  "stats (fst (startGame questions g s)) = \<lparr>correct = 0, wrong = 0, requeued = 0, totalAnswered = 0\<rparr>"
  by (simp add: startGame_def Let_def split_beta)

lemma step_stats:
  assumes "stats_invariant (stats (fst sg))"
  shows "stats_invariant (stats (fst (step questions e sg)))"
proof (cases sg)
  case (Pair s g)
  with assms have inv: "stats_invariant (stats s)" by simp
  show ?thesis
  proof (cases e)
    case (OptionClick opt)
    then show ?thesis
      using Pair inv handleOptionClick_stats [of opt s]
      by (auto simp: step_def split: sum.splits)
  next
    case StartGame
    then show ?thesis
      using Pair by (simp add: step_def split_beta stats_invariant_def)
  qed (use Pair inv in \<open>simp_all add: step_def split_beta tick_def handleExit_def\<close>)
qed

lemma run_stats:
  "stats_invariant (stats (fst sg)) \<Longrightarrow> stats_invariant (stats (fst (run questions evs sg)))"
  by (induction evs arbitrary: sg) (simp_all add: step_stats)

text \<open>
  Claim C3. From the state \<^verbatim>\<open>startGame\<close> produces, after every sequence of events
  (answers, among them), for every question bank and random source, the statistics satisfy
  \<open>requeued = wrong\<close> and \<open>totalAnswered = correct + wrong\<close>.
\<close>

theorem stats_invariant_session:
  "stats_invariant (stats (fst (run questions evs (startGame questions g s))))"
  by (rule run_stats) (simp add: stats_invariant_def)

theorem stats_invariant_session_witness:
  "stats (fst (run bank5 [OptionClick ''X'', Next, OptionClick ''C''] (startGame bank5 zeros initial_App))) =
     \<lparr>correct = 1, wrong = 1, requeued = 1, totalAnswered = 2\<rparr> \<and>
   stats_invariant
     (stats (fst (run bank5 [OptionClick ''X'', Next, OptionClick ''C''] (startGame bank5 zeros initial_App))))"
proof -
  have "stats (fst (run bank5 [OptionClick ''X'', Next, OptionClick ''C''] (startGame bank5 zeros initial_App))) =
     \<lparr>correct = 1, wrong = 1, requeued = 1, totalAnswered = 2\<rparr>"
    by code_simp
  with stats_invariant_session [of bank5 "[OptionClick ''X'', Next, OptionClick ''C'']" zeros initial_App]
  show ?thesis by blast
qed

section \<open>The deck (claim C7)\<close>

lemma handleOptionClick_deck:
  "handleOptionClick opt s = Inr s' \<Longrightarrow>
     currentIndex s' = currentIndex s \<and> prefix (deck s) (deck s')"
  by (auto simp: handleOptionClick_def Let_def split: if_splits)

lemma handleNext_deck:
  "currentIndex s \<le> currentIndex (fst (handleNext questions g s)) \<and>
   deck (fst (handleNext questions g s)) = deck s"
  by (simp add: handleNext_def Let_def split_beta)

lemma timer_effect_deck [simp]:
  "currentIndex (timer_effect s) = currentIndex s" "deck (timer_effect s) = deck s"
  by (simp_all add: timer_effect_def)

lemma step_deck:
  assumes "e \<noteq> StartGame"
  shows "currentIndex (fst sg) \<le> currentIndex (fst (step questions e sg)) \<and>
         prefix (deck (fst sg)) (deck (fst (step questions e sg)))"
proof (cases sg)
  case (Pair s g)
  show ?thesis
  proof (cases e)
    case (OptionClick opt)
    then show ?thesis
      using Pair handleOptionClick_deck [of opt s]
      by (auto simp: step_def split: sum.splits)
  next
    case Next
    then show ?thesis
      using Pair handleNext_deck [of s questions g]
      by (simp add: step_def split_beta)
  next
    case StartGame
    with assms show ?thesis by simp
  qed (use Pair in \<open>simp_all add: step_def tick_def handleExit_def\<close>)
qed

lemma run_deck:
  "StartGame \<notin> set evs \<Longrightarrow>
   currentIndex (fst sg) \<le> currentIndex (fst (run questions evs sg)) \<and>
   prefix (deck (fst sg)) (deck (fst (run questions evs sg)))"
proof (induction evs arbitrary: sg)
  case Nil
  show ?case by simp
next
  case (Cons e es)
  then have e: "e \<noteq> StartGame" and es: "StartGame \<notin> set es"
    by auto
  from step_deck [OF e, of sg questions] Cons.IH [OF es, of "step questions e sg"]
  show ?case
    by (auto intro: order_trans prefix_order.order_trans)
qed

text \<open>
  Claim C7. Over every sequence of events without \<^verbatim>\<open>startGame\<close> (answers and
  advances, and also ticks, exit and the return to the setup), the cursor does not
  decrease, the deck does not get shorter, and the old deck is a prefix of the new one. A
  wrong answer to an unanswered card appends that card to the end of the deck and leaves
  the cursor where it is.
\<close>

theorem deck_monotone:
  "(StartGame \<notin> set evs \<longrightarrow>
      currentIndex (fst sg) \<le> currentIndex (fst (run questions evs sg)) \<and>
      length (deck (fst sg)) \<le> length (deck (fst (run questions evs sg))) \<and>
      prefix (deck (fst sg)) (deck (fst (run questions evs sg)))) \<and>
   (\<not> isAnswered s \<and> currentIndex s < length (deck s) \<and> opt \<noteq> q_a (deck s ! currentIndex s) \<longrightarrow>
      (\<exists>s'. handleOptionClick opt s = Inr s' \<and>
            deck s' = deck s @ [deck s ! currentIndex s] \<and>
            currentIndex s' = currentIndex s))"
proof -
  have "length (deck (fst sg)) \<le> length (deck (fst (run questions evs sg)))"
    if "StartGame \<notin> set evs"
    using run_deck [OF that, of sg questions] by (simp add: prefix_length_le)
  moreover have "\<exists>s'. handleOptionClick opt s = Inr s' \<and>
            deck s' = deck s @ [deck s ! currentIndex s] \<and> currentIndex s' = currentIndex s"
    if "\<not> isAnswered s" "currentIndex s < length (deck s)" "opt \<noteq> q_a (deck s ! currentIndex s)"
    using that by (simp add: handleOptionClick_def Let_def)
  ultimately show ?thesis
    using run_deck [of evs sg questions] by blast
qed

theorem deck_monotone_witness:
  "StartGame \<notin> set [OptionClick ''X'', Next] \<and>
   currentIndex (fst (playing5, zeros)) = 0 \<and>
   currentIndex (fst (run bank5 [OptionClick ''X'', Next] (playing5, zeros))) = 1 \<and>
   length (deck (fst (playing5, zeros))) = 5 \<and>
   length (deck (fst (run bank5 [OptionClick ''X'', Next] (playing5, zeros)))) = 6 \<and>
   prefix (deck (fst (playing5, zeros))) (deck (fst (run bank5 [OptionClick ''X'', Next] (playing5, zeros)))) \<and>
   \<not> isAnswered playing5 \<and> currentIndex playing5 < length (deck playing5) \<and>
   ''X'' \<noteq> q_a (deck playing5 ! currentIndex playing5) \<and>
   (\<exists>s'. handleOptionClick ''X'' playing5 = Inr s' \<and>
      deck s' = deck playing5 @ [deck playing5 ! currentIndex playing5] \<and>
      currentIndex s' = currentIndex playing5)"
proof -
  have evs: "StartGame \<notin> set [OptionClick ''X'', Next]"
    by simp
  have vals: "currentIndex (fst (playing5, zeros)) = 0"
    "currentIndex (fst (run bank5 [OptionClick ''X'', Next] (playing5, zeros))) = 1"
    "length (deck (fst (playing5, zeros))) = 5"
    "length (deck (fst (run bank5 [OptionClick ''X'', Next] (playing5, zeros)))) = 6"
    by code_simp+
  have pre: "\<not> isAnswered playing5" "currentIndex playing5 < length (deck playing5)"
    "''X'' \<noteq> q_a (deck playing5 ! currentIndex playing5)"
    by code_simp+
  from deck_monotone [of "[OptionClick ''X'', Next]" "(playing5, zeros)" bank5 playing5 "''X''"]
    evs vals pre
  show ?thesis by blast
qed

section \<open>Starting with an empty pool (claim C2)\<close>

text \<open>
  Claim C2, as amended. When no question passes the domain filter, \<^verbatim>\<open>startGame\<close>
  still enters the playing phase: the deck is empty, the cursor 0, the timer at its start
  value and running, the statistics zero; options, selected option and the answered flag
  are left as they were, and no randomness is used.
\<close>

theorem startGame_empty_pool:
  assumes "filtered (selectedDomain s) questions = []"
  shows "startGame questions g s =
           (s\<lparr>deck := [], currentIndex := 0, gameState := PLAYING, timer := TIMER_START,
              stats := \<lparr>correct = 0, wrong = 0, requeued = 0, totalAnswered = 0\<rparr>,
              isActive := True\<rparr>, g)"
  using assms by (simp add: startGame_def shuffle_def)

theorem startGame_empty_pool_witness:
  "filtered (selectedDomain select_UCS) bank5 = [] \<and>
   startGame bank5 zeros select_UCS =
     (select_UCS\<lparr>deck := [], currentIndex := 0, gameState := PLAYING, timer := TIMER_START,
        stats := \<lparr>correct = 0, wrong = 0, requeued = 0, totalAnswered = 0\<rparr>,
        isActive := True\<rparr>, zeros)"
proof -
  have empty: "filtered (selectedDomain select_UCS) bank5 = []"
    by code_simp
  from startGame_empty_pool [OF empty, of zeros] empty show ?thesis
    by blast
qed

text \<open>
  Claim C2, as stated, fails on the five questions, which have none of the fourth domain:
  with that domain selected in the setup, \<^verbatim>\<open>startGame\<close> leaves the setup phase.
\<close>

theorem startGame_empty_pool_counterexample:
  "filtered (selectedDomain select_UCS) bank5 = [] \<and>
   gameState select_UCS = SETUP \<and>
   gameState (fst (startGame bank5 zeros select_UCS)) = PLAYING \<and>
   deck (fst (startGame bank5 zeros select_UCS)) = [] \<and>
   isActive (fst (startGame bank5 zeros select_UCS))"
  by code_simp

section \<open>Advancing (claim C4)\<close>




section \<open>The accuracy (claim C9)\<close>

text \<open>
  The rounding is to the nearest value with a significand of 53 bits: the exponent
  brackets the argument, the significand is an integer between \<open>2 ^ 52\<close> and
  \<open>2 ^ 53\<close>, and the result is within half a unit in the last place of the argument.
\<close>

lemma bit_length_bounds:
  "0 < n \<Longrightarrow> 0 < bit_length n \<and> 2 ^ nat (bit_length n - 1) \<le> n \<and> n < 2 ^ nat (bit_length n)"
proof (induction n rule: bit_length.induct)
  case (1 n)
  show ?case
  proof (cases "n = 1")
    case True
    have "bit_length 1 = 1"
      by (simp add: bit_length.simps [of 1] bit_length.simps [of 0])
    with True show ?thesis by simp
  next
    case False
    with "1.prems" have m: "0 < n div 2" by simp
    define k where "k = bit_length (n div 2)"
    from "1.IH" m "1.prems" have IH: "0 < k" "2 ^ nat (k - 1) \<le> n div 2" "n div 2 < 2 ^ nat k"
      by (simp_all add: k_def)
    have bl: "bit_length n = 1 + k"
      using "1.prems" by (subst bit_length.simps) (simp add: k_def)
    have nk: "nat k = Suc (nat (k - 1))"
      using IH(1) by simp
    have lo: "(2::int) ^ nat k \<le> n"
    proof -
      have "(2::int) ^ nat k = 2 * 2 ^ nat (k - 1)" by (subst nk) simp
      also have "\<dots> \<le> 2 * (n div 2)" using IH(2) by simp
      also have "\<dots> \<le> n" by simp
      finally show ?thesis .
    qed
    have hi: "n < 2 ^ nat (1 + k)"
    proof -
      have "n < 2 * (n div 2 + 1)" by simp
      also have "\<dots> \<le> 2 * 2 ^ nat k" using IH(3) by simp
      also have "\<dots> = 2 ^ nat (1 + k)" using IH(1) by (simp add: nat_add_distrib)
      finally show ?thesis .
    qed
    show ?thesis
      using IH(1) lo hi unfolding bl by simp
  qed
qed

lemma binary_exponent_bounds:
  assumes "0 < x"
  shows "2 powi binary_exponent x \<le> x \<and> x < 2 powi (binary_exponent x + 1)"
proof -
  obtain p q where pq: "quotient_of x = (p, q)"
    by (cases "quotient_of x")
  then have q: "0 < q" and x: "x = of_int p / of_int q"
    by (simp_all add: quotient_of_denom_pos quotient_of_div)
  with assms have p: "0 < p"
    by (simp add: zero_less_divide_iff)
  define a where "a = bit_length p"
  define b where "b = bit_length q"
  from bit_length_bounds [OF p] have a: "0 < a" "2 ^ nat (a - 1) \<le> p" "p < 2 ^ nat a"
    by (simp_all add: a_def)
  from bit_length_bounds [OF q] have b: "0 < b" "2 ^ nat (b - 1) \<le> q" "q < 2 ^ nat b"
    by (simp_all add: b_def)
  have pw: "(2::rat) powi k = 2 ^ nat k" if "0 \<le> k" for k
    using that by (simp add: power_int_def)
  have plo: "(2::rat) powi (a - 1) \<le> of_int p"
  proof -
    have "(of_int (2 ^ nat (a - 1)) :: rat) \<le> of_int p"
      using a(2) by (simp only: of_int_le_iff)
    then show ?thesis using a(1) by (simp add: pw)
  qed
  have phi: "(of_int p :: rat) < 2 powi a"
  proof -
    have "(of_int p :: rat) < of_int (2 ^ nat a)"
      using a(3) by (simp only: of_int_less_iff)
    then show ?thesis using a(1) by (simp add: pw)
  qed
  have qlo: "(2::rat) powi (b - 1) \<le> of_int q"
  proof -
    have "(of_int (2 ^ nat (b - 1)) :: rat) \<le> of_int q"
      using b(2) by (simp only: of_int_le_iff)
    then show ?thesis using b(1) by (simp add: pw)
  qed
  have qhi: "(of_int q :: rat) < 2 powi b"
  proof -
    have "(of_int q :: rat) < of_int (2 ^ nat b)"
      using b(3) by (simp only: of_int_less_iff)
    then show ?thesis using b(1) by (simp add: pw)
  qed
  have qpos: "(0::rat) < of_int q" using q by simp
  have ppos: "(0::rat) < of_int p" using p by simp
  have lower: "(2::rat) powi (a - b - 1) < x"
  proof -
    have "(2::rat) powi (a - b - 1) * of_int q < 2 powi (a - b - 1) * 2 powi b"
      using qhi by simp
    also have "\<dots> = 2 powi (a - 1)"
      by (simp add: power_int_add [symmetric])
    also have "\<dots> \<le> of_int p" by (rule plo)
    finally show ?thesis
      using qpos by (simp add: x pos_less_divide_eq)
  qed
  have upper: "x < (2::rat) powi (a - b + 1)"
  proof -
    have "of_int p < (2::rat) powi a" by (rule phi)
    also have "\<dots> = 2 powi (a - b + 1) * 2 powi (b - 1)"
      by (simp add: power_int_add [symmetric])
    also have "\<dots> \<le> 2 powi (a - b + 1) * of_int q"
      using qlo by simp
    finally show ?thesis
      using qpos by (simp add: x pos_divide_less_eq)
  qed
  show ?thesis
  proof (cases "2 powi (a - b) \<le> x")
    case True
    then have "binary_exponent x = a - b"
      by (simp add: binary_exponent_def pq a_def b_def)
    with True upper show ?thesis by simp
  next
    case False
    then have "binary_exponent x = a - b - 1"
      by (simp add: binary_exponent_def pq a_def b_def)
    with False lower show ?thesis by simp
  qed
qed

lemma round_half_even_nearest: "\<bar>of_int (round_half_even m) - m\<bar> \<le> 1 / 2"
proof -
  have "of_int \<lfloor>m\<rfloor> \<le> m" "m < of_int \<lfloor>m\<rfloor> + 1"
    by linarith+
  then show ?thesis
    by (auto simp: round_half_even_def Let_def abs_le_iff)
qed

lemma to_double_nearest:
  assumes "0 < x"
  shows "\<bar>to_double x - x\<bar> \<le> 2 powi (binary_exponent x - 53) \<and>
         to_double x = of_int (round_half_even (x / 2 powi (binary_exponent x - 52))) * 2 powi (binary_exponent x - 52) \<and>
         2 ^ 52 \<le> round_half_even (x / 2 powi (binary_exponent x - 52)) \<and>
         round_half_even (x / 2 powi (binary_exponent x - 52)) \<le> 2 ^ 53"
proof -
  define e where "e = binary_exponent x"
  define u :: rat where "u = 2 powi (e - 52)"
  define n where "n = round_half_even (x / u)"
  have u: "0 < u" by (simp add: u_def)
  have td: "to_double x = of_int n * u"
    using assms by (simp add: to_double_def Let_def u_def e_def n_def)
  have near: "\<bar>of_int n - x / u\<bar> \<le> 1 / 2"
    unfolding n_def by (rule round_half_even_nearest)
  have "\<bar>to_double x - x\<bar> = \<bar>of_int n - x / u\<bar> * u"
  proof -
    have "to_double x - x = (of_int n - x / u) * u"
      using u by (simp add: td field_simps)
    then show ?thesis using u by (simp add: abs_mult)
  qed
  also have "\<dots> \<le> 1 / 2 * u"
    using near u by (intro mult_right_mono) simp_all
  also have "\<dots> = 2 powi (e - 53)"
  proof -
    have "(2::rat) powi (e - 52) = 2 powi (e - 53) * 2 powi 1"
      by (simp add: power_int_add [symmetric] del: power_int_1_right)
    then show ?thesis by (simp add: u_def)
  qed
  finally have err: "\<bar>to_double x - x\<bar> \<le> 2 powi (e - 53)" .
  from binary_exponent_bounds [OF assms]
  have bx: "2 powi e \<le> x" "x < 2 powi (e + 1)" by (simp_all add: e_def)
  have m_lo: "2 ^ 52 \<le> x / u"
  proof -
    have "(2::rat) ^ 52 * u = 2 powi 52 * 2 powi (e - 52)" by (simp add: u_def)
    also have "\<dots> = 2 powi e" using power_int_add [of "2::rat" 52 "e - 52"] by simp
    finally show ?thesis using bx(1) u by (simp add: pos_le_divide_eq)
  qed
  have m_hi: "x / u < 2 ^ 53"
  proof -
    have "(2::rat) ^ 53 * u = 2 powi 53 * 2 powi (e - 52)" by (simp add: u_def)
    also have "\<dots> = 2 powi (e + 1)" using power_int_add [of "2::rat" 53 "e - 52"] by (simp add: add.commute)
    finally show ?thesis using bx(2) u by (simp add: pos_divide_less_eq)
  qed
  have n_lo: "2 ^ 52 \<le> n"
  proof -
    have "(2 ^ 52 :: int) \<le> \<lfloor>x / u\<rfloor>" using m_lo by (simp add: le_floor_iff)
    moreover have "\<lfloor>x / u\<rfloor> \<le> n"
      by (simp add: n_def round_half_even_def Let_def)
    ultimately show ?thesis by linarith
  qed
  have n_hi: "n \<le> 2 ^ 53"
  proof -
    have "\<lfloor>x / u\<rfloor> < (2 ^ 53 :: int)" using m_hi by (simp add: floor_less_iff)
    moreover have "n \<le> \<lfloor>x / u\<rfloor> + 1"
      by (simp add: n_def round_half_even_def Let_def)
    ultimately show ?thesis by linarith
  qed
  show ?thesis
    using err td n_lo n_hi unfolding e_def [symmetric] n_def u_def by simp
qed

text \<open>Scaling before dividing, \<^verbatim>\<open>Math.round(100 * 23 / 40)\<close>, loses nothing.\<close>

lemma scaled_first_23_of_40: "Math_round (to_double (to_double (100 * 23) / 40)) = 58"
  by code_simp

text \<open>
  Claim C9 at 23 correct answers of 40. The quotient 23/40 is not a binary64 value; the
  nearest one is below it, and its product with 100, rounded again, is below 57.5.
  \<^verbatim>\<open>Math.round\<close> of that is 57, where the exact percentage 57.5 rounds to 58. With
  nothing answered the accuracy is 0.
\<close>

theorem accuracy_23_of_40:
  "to_double (23 / 40) = 2589569785738035 / 2 ^ 52 \<and>
   to_double (to_double (23 / 40) * 100) = 8092405580431359 / 2 ^ 47 \<and>
   accuracy tally_23_of_40 = 57 \<and>
   exact_accuracy tally_23_of_40 = 58 \<and>
   accuracy \<lparr>correct = 0, wrong = 0, requeued = 0, totalAnswered = 0\<rparr> = 0"
  by code_simp

end
